theory Spec2Isabelle
  imports Main "HOL-Library.Multiset"
begin

section \<open>Data model (shared/schema.ts)\<close>

text \<open>
  The \<open>conversions\<close> table: the two enum columns are datatypes, a nullable column is an
  \<open>option\<close>, a \<open>Date\<close> is its \<open>getTime()\<close> value in milliseconds. The \<open>jsonb\<close> column
  \<open>metadata\<close> only ever holds the object the upload handler builds
  (\<open>{fileSize, mimeType}\<close>), which is the shape modelled here.
\<close>

datatype intensity = Soft | Medium | Heavy

datatype status = Pending | Processing | Completed | Failed

record file_metadata =
  fileSize :: nat
  mimeType :: string

record conversion =
  conv_id :: string
  originalFilename :: string
  originalFilePath :: string
  convertedFilePath :: "string option"
  intensity :: intensity
  status :: status
  progress :: int
  metadata :: "file_metadata option"
  createdAt :: int
  completedAt :: "int option"

text \<open>
  \<open>InsertConversion\<close>: the insert schema omits \<open>id\<close>, \<open>createdAt\<close> and \<open>completedAt\<close>;
  columns with a default or without \<open>notNull\<close> are optional (\<open>None\<close> stands for both
  \<open>undefined\<close> and \<open>null\<close>, which \<open>??\<close> treats alike).
\<close>

record insert_conversion =
  ins_originalFilename :: string
  ins_originalFilePath :: string
  ins_convertedFilePath :: "string option"
  ins_intensity :: intensity
  ins_status :: "status option"
  ins_progress :: "int option"
  ins_metadata :: "file_metadata option"

text \<open>
  \<open>Partial<Conversion>\<close>: every field may be absent (\<open>None\<close>) or named with a value
  (\<open>Some v\<close>); for a nullable column the value itself is an \<open>option\<close>. A property
  written out with the value \<open>undefined\<close> is not represented.
\<close>

record conversion_updates =
  upd_id :: "string option"
  upd_originalFilename :: "string option"
  upd_originalFilePath :: "string option"
  upd_convertedFilePath :: "string option option"
  upd_intensity :: "intensity option"
  upd_status :: "status option"
  upd_progress :: "int option"
  upd_metadata :: "file_metadata option option"
  upd_createdAt :: "int option"
  upd_completedAt :: "int option option"

definition no_updates :: conversion_updates where
  "no_updates = \<lparr> upd_id = None, upd_originalFilename = None, upd_originalFilePath = None,
     upd_convertedFilePath = None, upd_intensity = None, upd_status = None,
     upd_progress = None, upd_metadata = None, upd_createdAt = None,
     upd_completedAt = None \<rparr>"

section \<open>MemStorage (server/storage.ts)\<close>

text \<open>
  The private \<open>Map<string, Conversion>\<close> is an association list in insertion order:
  \<open>Map.set\<close> on a key that is present replaces the value in place, on a new key it
  appends; \<open>Map.get\<close> is the lookup; \<open>Map.values()\<close> iterates in insertion order.
\<close>

type_synonym mem_storage = "(string \<times> conversion) list"

definition map_get :: "mem_storage \<Rightarrow> string \<Rightarrow> conversion option" where
  "map_get m k = map_of m k"

fun map_set :: "string \<Rightarrow> conversion \<Rightarrow> mem_storage \<Rightarrow> mem_storage" where
  "map_set k v [] = [(k, v)]"
| "map_set k v ((k', v') # m) =
     (if k' = k then (k, v) # m else (k', v') # map_set k v m)"

definition map_values :: "mem_storage \<Rightarrow> conversion list" where
  "map_values m = map snd m"

definition map_keys :: "mem_storage \<Rightarrow> string set" where
  "map_keys m = fst ` set m"

text \<open>
  \<open>createConversion\<close>: \<open>randomUUID()\<close> and \<open>new Date()\<close> are the two arguments
  \<open>uuid\<close> and \<open>now\<close>. The object literal spreads the insert record and then sets the
  generated and defaulted fields.
\<close>

definition createConversion ::
  "insert_conversion \<Rightarrow> string \<Rightarrow> int \<Rightarrow> mem_storage \<Rightarrow> conversion \<times> mem_storage" where
  "createConversion insertConversion uuid now conversions =
     (let conversion = \<lparr> conv_id = uuid,
            originalFilename = ins_originalFilename insertConversion,
            originalFilePath = ins_originalFilePath insertConversion,
            convertedFilePath = ins_convertedFilePath insertConversion,
            intensity = ins_intensity insertConversion,
            status = (case ins_status insertConversion of None \<Rightarrow> Pending | Some s \<Rightarrow> s),
            progress = (case ins_progress insertConversion of None \<Rightarrow> 0 | Some p \<Rightarrow> p),
            metadata = ins_metadata insertConversion,
            createdAt = now,
            completedAt = None \<rparr>
      in (conversion, map_set uuid conversion conversions))"

definition getConversion :: "string \<Rightarrow> mem_storage \<Rightarrow> conversion option \<times> mem_storage" where
  "getConversion cid conversions = (map_get conversions cid, conversions)"

text \<open>The object spread \<open>{ ...existing, ...updates }\<close>.\<close>

definition spread :: "conversion \<Rightarrow> conversion_updates \<Rightarrow> conversion" where
  "spread existing updates =
     \<lparr> conv_id = (case upd_id updates of None \<Rightarrow> conv_id existing | Some v \<Rightarrow> v),
       originalFilename = (case upd_originalFilename updates of
          None \<Rightarrow> originalFilename existing | Some v \<Rightarrow> v),
       originalFilePath = (case upd_originalFilePath updates of
          None \<Rightarrow> originalFilePath existing | Some v \<Rightarrow> v),
       convertedFilePath = (case upd_convertedFilePath updates of
          None \<Rightarrow> convertedFilePath existing | Some v \<Rightarrow> v),
       intensity = (case upd_intensity updates of None \<Rightarrow> intensity existing | Some v \<Rightarrow> v),
       status = (case upd_status updates of None \<Rightarrow> status existing | Some v \<Rightarrow> v),
       progress = (case upd_progress updates of None \<Rightarrow> progress existing | Some v \<Rightarrow> v),
       metadata = (case upd_metadata updates of None \<Rightarrow> metadata existing | Some v \<Rightarrow> v),
       createdAt = (case upd_createdAt updates of None \<Rightarrow> createdAt existing | Some v \<Rightarrow> v),
       completedAt = (case upd_completedAt updates of
          None \<Rightarrow> completedAt existing | Some v \<Rightarrow> v) \<rparr>"

definition updateConversion ::
  "string \<Rightarrow> conversion_updates \<Rightarrow> mem_storage \<Rightarrow> conversion option \<times> mem_storage" where
  "updateConversion cid updates conversions =
     (case map_get conversions cid of
        None \<Rightarrow> (None, conversions)
      | Some existing \<Rightarrow>
          (let updated = spread existing updates
           in (Some updated, map_set cid updated conversions)))"

text \<open>
  \<open>Array.prototype.sort\<close> with a comparator is a stable sort; it is modelled by a
  stable insertion sort that places an element before the first one the comparator
  does not put in front of it.
\<close>

fun insert_by :: "('a \<Rightarrow> 'a \<Rightarrow> int) \<Rightarrow> 'a \<Rightarrow> 'a list \<Rightarrow> 'a list" where
  "insert_by cmp x [] = [x]"
| "insert_by cmp x (y # ys) =
     (if cmp x y \<le> 0 then x # y # ys else y # insert_by cmp x ys)"

definition array_sort :: "('a \<Rightarrow> 'a \<Rightarrow> int) \<Rightarrow> 'a list \<Rightarrow> 'a list" where
  "array_sort cmp xs = foldr (insert_by cmp) xs []"

definition getAllConversions :: "mem_storage \<Rightarrow> conversion list \<times> mem_storage" where
  "getAllConversions conversions =
     (array_sort (\<lambda>a b. createdAt b - createdAt a) (map_values conversions), conversions)"

section \<open>Upload route (server/routes.ts)\<close>

text \<open>
  The file multer hands to the handler (\<open>Express.Multer.File\<close>; \<open>size\<close> is written
  \<open>size_b\<close>), and the two parts of the request the handler reads.
\<close>

record upload_file =
  originalname :: string
  path :: string
  size_b :: nat
  mimetype :: string

record upload_request =
  req_file :: "upload_file option"
  req_intensity :: "string option"

definition allowedTypes :: "string list" where
  "allowedTypes = [''audio/mpeg'', ''audio/wav'', ''audio/mp4'', ''audio/m4a'']"

definition fileFilter :: "upload_file \<Rightarrow> bool" where
  "fileFilter file = (mimetype file \<in> set allowedTypes)"

definition fileSize_limit :: nat where
  "fileSize_limit = 50 * 1024 * 1024"

datatype upload_error = InvalidFileType | LimitFileSize

text \<open>
  \<open>upload.single('audio')\<close>: no file part passes through with \<open>req.file\<close> undefined; a
  file is first put to \<open>fileFilter\<close>, then read up to the size limit; either failure is
  passed on as an error and the route handler does not run.
\<close>

definition upload_single :: "upload_file option \<Rightarrow> upload_error + upload_file option" where
  "upload_single part =
     (case part of
        None \<Rightarrow> Inr None
      | Some file \<Rightarrow>
          if \<not> fileFilter file then Inl InvalidFileType
          else if fileSize_limit < size_b file then Inl LimitFileSize
          else Inr (Some file))"

datatype payload = JsonConversion conversion | JsonMessage string

type_synonym response = "nat \<times> payload"

text \<open>
  Modelled from the spec: the response to an upload that the multer middleware rejects.
  The error-handling middleware that turns the error multer passes on into a response is
  not among the sources; the spec (External interfaces, File validation) says such an
  upload is rejected with a 400-class error.
\<close>

definition reject_upload :: "upload_error \<Rightarrow> response" where
  "reject_upload err =
     (400, JsonMessage (case err of
        InvalidFileType \<Rightarrow> ''Invalid file type. Only MP3, WAV, and M4A files are allowed.''
      | LimitFileSize \<Rightarrow> ''File too large''))"

text \<open>
  \<open>insertConversionSchema.safeParse\<close> on the object the handler builds: the text
  columns get strings, \<open>progress\<close> gets 0 and \<open>status\<close> gets \<open>"pending"\<close>, so the parse
  fails exactly when the intensity is none of the three enum values.
\<close>

definition parse_intensity :: "string \<Rightarrow> intensity option" where
  "parse_intensity s =
     (if s = ''soft'' then Some Soft
      else if s = ''medium'' then Some Medium
      else if s = ''heavy'' then Some Heavy
      else None)"

definition safeParse :: "upload_file \<Rightarrow> string \<Rightarrow> insert_conversion option" where
  "safeParse file intensity_text =
     (case parse_intensity intensity_text of
        None \<Rightarrow> None
      | Some i \<Rightarrow> Some \<lparr> ins_originalFilename = originalname file,
          ins_originalFilePath = path file,
          ins_convertedFilePath = None,
          ins_intensity = i,
          ins_status = Some Pending,
          ins_progress = Some 0,
          ins_metadata = Some \<lparr> fileSize = size_b file, mimeType = mimetype file \<rparr> \<rparr>)"

text \<open>
  \<open>POST /api/upload\<close>. The result is the response, the store, and the id for which
  \<open>processAudioFile\<close> is started in the background (if any). \<open>intensity || "medium"\<close>
  replaces a missing or empty field. With the in-memory store nothing in the \<open>try\<close> block
  raises, so the 500 branch has no counterpart.
\<close>

definition post_upload ::
  "upload_request \<Rightarrow> string \<Rightarrow> int \<Rightarrow> mem_storage
     \<Rightarrow> response \<times> mem_storage \<times> string option" where
  "post_upload req uuid now conversions =
     (case upload_single (req_file req) of
        Inl err \<Rightarrow> (reject_upload err, conversions, None)
      | Inr None \<Rightarrow> ((400, JsonMessage ''No file uploaded''), conversions, None)
      | Inr (Some file) \<Rightarrow>
          (case safeParse file
                  (case req_intensity req of
                     None \<Rightarrow> ''medium''
                   | Some s \<Rightarrow> if s = [] then ''medium'' else s) of
             None \<Rightarrow> ((400, JsonMessage ''Invalid request data''), conversions, None)
           | Some data \<Rightarrow>
               (let (conversion, conversions') = createConversion data uuid now conversions
                in ((200, JsonConversion conversion), conversions', Some (conv_id conversion)))))"

section \<open>The job runner (processAudioFile, server/routes.ts)\<close>

text \<open>
  What the runner acts on: the \<open>storage\<close> singleton, the files on disk (path and
  contents, the newest entry of a path first) and the console. \<open>calls\<close> and
  \<open>snapshots\<close> record each \<open>storage.updateConversion\<close> call of the runner that
  resolves, and the store after it.
\<close>

datatype log_entry =
    CreatedConvertedFile string
  | OriginalFileNotFound string
  | ErrorCreatingConvertedFile
  | ProcessingError

record world =
  storage :: mem_storage
  disk :: "(string \<times> string) list"
  console :: "log_entry list"
  calls :: "(string \<times> conversion_updates) list"
  snapshots :: "mem_storage list"

text \<open>
  What the runner cannot decide itself: whether \<open>fs.copyFileSync\<close> raises on a source
  that exists, the value of \<open>new Date()\<close> at the last step, and whether an awaited
  store call rejects. In the \<open>try\<close> block that is \<open>reject_at env\<close>: \<open>Some 0\<close> for the
  initial \<open>getConversion\<close>, \<open>Some step\<close> for the \<open>updateConversion\<close> of that step (the
  first rejection ends the run, so one position is enough; the timer promise of a step
  never rejects). \<open>catch_rejects env\<close> is the \<open>updateConversion\<close> of the \<open>catch\<close> block.
  A call that rejects leaves the store as it was. The in-memory store never rejects,
  which is \<open>None\<close> and \<open>False\<close>; the fields stand for a store behind \<open>IStorage\<close> that
  can.
\<close>

record environment =
  copy_throws :: bool
  completion_time :: int
  reject_at :: "nat option"
  catch_rejects :: bool

datatype exn = Rejected nat | CatchRejected | CopyError

definition existsSync :: "(string \<times> string) list \<Rightarrow> string \<Rightarrow> bool" where
  "existsSync fs p = (map_of fs p \<noteq> None)"

definition copyFileSync ::
  "bool \<Rightarrow> string \<Rightarrow> string \<Rightarrow> (string \<times> string) list \<Rightarrow> exn + (string \<times> string) list" where
  "copyFileSync throws src dest fs =
     (case map_of fs src of
        None \<Rightarrow> Inl CopyError
      | Some bytes \<Rightarrow> if throws then Inl CopyError else Inr ((dest, bytes) # fs))"

definition totalSteps :: nat where
  "totalSteps = 10"

text \<open>
  \<open>Math.round((step / totalSteps) * 100)\<close>: \<open>Math.round x\<close> is \<open>floor (x + 1/2)\<close>,
  computed here on the exact quotient; for steps 1 to 10 the double-precision product is
  within \<open>1/2\<close> of it and rounds to the same integer.
\<close>

definition progress_at :: "nat \<Rightarrow> int" where
  "progress_at step = (2 * (int step * 100) + int totalSteps) div (2 * int totalSteps)"

definition outputPath :: "string \<Rightarrow> string" where
  "outputPath conversionId = ''uploads/converted_'' @ conversionId @ ''.mp3''"

text \<open>The three object literals passed to \<open>storage.updateConversion\<close>.\<close>

definition processing_update :: "int \<Rightarrow> conversion_updates" where
  "processing_update p = no_updates \<lparr> upd_status := Some Processing, upd_progress := Some p \<rparr>"

definition completed_update :: "int \<Rightarrow> string \<Rightarrow> int \<Rightarrow> conversion_updates" where
  "completed_update p out now =
     no_updates \<lparr> upd_status := Some Completed, upd_progress := Some p,
       upd_convertedFilePath := Some (Some out), upd_completedAt := Some (Some now) \<rparr>"

definition failed_update :: conversion_updates where
  "failed_update = no_updates \<lparr> upd_status := Some Failed, upd_progress := Some 0 \<rparr>"

definition await_updateConversion :: "string \<Rightarrow> conversion_updates \<Rightarrow> world \<Rightarrow> world" where
  "await_updateConversion cid updates w =
     (let conversions' = snd (updateConversion cid updates (storage w))
      in w \<lparr> storage := conversions',
             calls := calls w @ [(cid, updates)],
             snapshots := snapshots w @ [conversions'] \<rparr>)"

text \<open>
  The inner \<open>try\<close> of the last step: copy the original file if it exists, log otherwise;
  an error of the copy is caught and logged.
\<close>

definition copy_original :: "environment \<Rightarrow> string \<Rightarrow> string \<Rightarrow> world \<Rightarrow> world" where
  "copy_original env src out w =
     (if existsSync (disk w) src then
        (case copyFileSync (copy_throws env) src out (disk w) of
           Inr fs' \<Rightarrow> w \<lparr> disk := fs', console := console w @ [CreatedConvertedFile out] \<rparr>
         | Inl copyError \<Rightarrow> w \<lparr> console := console w @ [ErrorCreatingConvertedFile] \<rparr>)
      else w \<lparr> console := console w @ [OriginalFileNotFound src] \<rparr>)"

text \<open>
  An awaited \<open>storage.updateConversion\<close> inside the \<open>try\<close> block: it rejects, leaving the
  world as it is at the call, or takes effect.
\<close>

definition try_update ::
  "environment \<Rightarrow> nat \<Rightarrow> string \<Rightarrow> conversion_updates \<Rightarrow> world \<Rightarrow> (exn \<times> world) + world" where
  "try_update env step conversionId updates w =
     (if reject_at env = Some step then Inl (Rejected step, w)
      else Inr (await_updateConversion conversionId updates w))"

text \<open>
  The body of the loop. On the last step the copy block runs first and the update is
  awaited after it, so a rejection of that update finds the file copied and logged.
\<close>

definition step_body ::
  "environment \<Rightarrow> string \<Rightarrow> conversion \<Rightarrow> nat \<Rightarrow> world \<Rightarrow> (exn \<times> world) + world" where
  "step_body env conversionId conversion step w =
     (if step = totalSteps then
        try_update env step conversionId
          (completed_update (progress_at step) (outputPath conversionId) (completion_time env))
          (copy_original env (originalFilePath conversion) (outputPath conversionId) w)
      else
        try_update env step conversionId (processing_update (progress_at step)) w)"

text \<open>
  The \<open>for\<close> loop. An exception leaves the loop with the world as it is where it was
  raised.
\<close>

function for_steps ::
  "environment \<Rightarrow> string \<Rightarrow> conversion \<Rightarrow> nat \<Rightarrow> world \<Rightarrow> (exn \<times> world) + world" where
  "for_steps env conversionId conversion step w =
     (if step \<le> totalSteps then
        (case step_body env conversionId conversion step w of
           Inl raised \<Rightarrow> Inl raised
         | Inr w' \<Rightarrow> for_steps env conversionId conversion (step + 1) w')
      else Inr w)"
  by pat_completeness auto
termination
  by (relation "measure (\<lambda>(env, conversionId, conversion, step, w). totalSteps + 1 - step)") auto

declare for_steps.simps [simp del]

text \<open>
  The \<open>catch\<close> block: log, then mark the job failed. Its \<open>await\<close> is outside every \<open>try\<close>:
  when that update rejects, the promise of \<open>processAudioFile\<close> rejects (\<open>Some\<close> in the first
  component of the result) and the job is left as it was.
\<close>

definition catch_block :: "environment \<Rightarrow> string \<Rightarrow> world \<Rightarrow> exn option \<times> world" where
  "catch_block env conversionId w =
     (let logged = w \<lparr> console := console w @ [ProcessingError] \<rparr>
      in if catch_rejects env then (Some CatchRejected, logged)
         else (None, await_updateConversion conversionId failed_update logged))"

text \<open>
  \<open>processAudioFile\<close>: the result is how its promise settles (\<open>None\<close>: it resolves;
  \<open>Some e\<close>: it rejects with \<open>e\<close>) and the world it leaves. The upload handler does not
  await the promise.
\<close>

definition processAudioFile ::
  "environment \<Rightarrow> string \<Rightarrow> world \<Rightarrow> exn option \<times> world" where
  "processAudioFile env conversionId w =
     (if reject_at env = Some 0 then catch_block env conversionId w
      else case fst (getConversion conversionId (storage w)) of
        None \<Rightarrow> (None, w)
      | Some conversion \<Rightarrow>
          (case for_steps env conversionId conversion 1 w of
             Inl (e, w') \<Rightarrow> catch_block env conversionId w'
           | Inr w' \<Rightarrow> (None, w')))"

text \<open>The states one job goes through in the store snapshots of a run.\<close>

definition job_states :: "string \<Rightarrow> world \<Rightarrow> conversion option list" where
  "job_states cid w = map (\<lambda>conversions. map_get conversions cid) (snapshots w)"

text \<open>
  The two properties of job states: \<open>convertedFilePath\<close> is set exactly when the status is
  completed; and one transition of a job's lifecycle: a completed or failed job has no successor, the
  successor is never pending, and progress does not decrease unless the successor is
  failed with progress 0.
\<close>

definition path_iff_completed :: "conversion \<Rightarrow> bool" where
  "path_iff_completed c \<longleftrightarrow> (convertedFilePath c \<noteq> None) = (status c = Completed)"

definition lifecycle_step :: "conversion \<Rightarrow> conversion \<Rightarrow> bool" where
  "lifecycle_step a b \<longleftrightarrow>
     status a \<noteq> Completed \<and> status a \<noteq> Failed
   \<and> status b \<noteq> Pending
   \<and> (progress a \<le> progress b \<or> status b = Failed \<and> progress b = 0)"

section \<open>Sample data\<close>

definition sample_job :: conversion where
  "sample_job = \<lparr> conv_id = ''a'', originalFilename = ''song.wav'',
     originalFilePath = ''uploads/f1'', convertedFilePath = None, intensity = Heavy,
     status = Pending, progress = 0,
     metadata = Some \<lparr> fileSize = 2097152, mimeType = ''audio/wav'' \<rparr>,
     createdAt = 1000, completedAt = None \<rparr>"

definition sample_store :: mem_storage where
  "sample_store = [(''a'', sample_job), (''b'', sample_job \<lparr> conv_id := ''b'', createdAt := 2000 \<rparr>)]"

definition sample_world :: world where
  "sample_world = \<lparr> storage = sample_store, disk = [(''uploads/f1'', ''RIFF'')],
     console = [], calls = [], snapshots = [] \<rparr>"

definition sample_env :: environment where
  "sample_env = \<lparr> copy_throws = False, completion_time = 21000, reject_at = None,
     catch_rejects = False \<rparr>"

definition sample_upload :: upload_request where
  "sample_upload = \<lparr> req_file = Some \<lparr> originalname = ''song.wav'', path = ''uploads/f1'',
       size_b = 2097152, mimetype = ''audio/wav'' \<rparr>,
     req_intensity = Some ''heavy'' \<rparr>"

definition sample_world_no_source :: world where
  "sample_world_no_source = \<lparr> storage = sample_store, disk = [],
     console = [], calls = [], snapshots = [] \<rparr>"

definition sample_text_upload :: upload_request where
  "sample_text_upload = \<lparr> req_file = Some \<lparr> originalname = ''notes.mp3'', path = ''uploads/f2'',
       size_b = 12, mimetype = ''text/plain'' \<rparr>,
     req_intensity = None \<rparr>"

definition sample_big_upload :: upload_request where
  "sample_big_upload = \<lparr> req_file = Some \<lparr> originalname = ''long.wav'', path = ''uploads/f3'',
       size_b = 52428801, mimetype = ''audio/wav'' \<rparr>,
     req_intensity = None \<rparr>"


definition sample_env_rejected :: environment where
  "sample_env_rejected = \<lparr> copy_throws = False, completion_time = 21000,
     reject_at = Some 3, catch_rejects = False \<rparr>"



definition sample_listing_store :: mem_storage where
  "sample_listing_store = sample_store @ [(''c'', sample_job \<lparr> conv_id := ''c'' \<rparr>)]"

definition sample_insert :: insert_conversion where
  "sample_insert = \<lparr> ins_originalFilename = ''song.wav'', ins_originalFilePath = ''uploads/f1'',
     ins_convertedFilePath = None, ins_intensity = Heavy, ins_status = Some Pending,
     ins_progress = Some 0,
     ins_metadata = Some \<lparr> fileSize = 2097152, mimeType = ''audio/wav'' \<rparr> \<rparr>"

definition sample_created :: "conversion \<times> mem_storage" where
  "sample_created = createConversion sample_insert ''c'' 3000 sample_store"

definition fresh_world :: "mem_storage \<Rightarrow> world" where
  "fresh_world conversions = \<lparr> storage = conversions, disk = [(''uploads/f1'', ''RIFF'')],
     console = [], calls = [], snapshots = [] \<rparr>"

section \<open>Facts about the store\<close>

lemma map_get_map_set: "map_get (map_set k v m) k' = (if k' = k then Some v else map_get m k')"
  by (induction m) (auto simp: map_get_def)

lemma map_fst_map_set:
  "map fst (map_set k v m) = (if k \<in> set (map fst m) then map fst m else map fst m @ [k])"
  by (induction m) (force split: if_splits)+

lemma map_get_None_iff: "map_get m k = None \<longleftrightarrow> k \<notin> map_keys m"
  by (simp add: map_get_def map_keys_def map_of_eq_None_iff)

lemma updateConversion_present:
  "map_get conversions cid = Some existing \<Longrightarrow>
   updateConversion cid updates conversions =
     (Some (spread existing updates), map_set cid (spread existing updates) conversions)"
  by (simp add: updateConversion_def Let_def)

lemma updateConversion_absent:
  "map_get conversions cid = None \<Longrightarrow>
   updateConversion cid updates conversions = (None, conversions)"
  by (simp add: updateConversion_def)

lemma map_fst_updateConversion:
  "map fst (snd (updateConversion cid updates conversions)) = map fst conversions"
proof (cases "map_get conversions cid")
  case None
  then show ?thesis by (simp add: updateConversion_absent)
next
  case (Some existing)
  then have "cid \<in> set (map fst conversions)"
    using map_get_None_iff [of conversions cid] by (simp add: map_keys_def)
  with Some show ?thesis
    by (simp add: updateConversion_present map_fst_map_set)
qed

section \<open>Facts about the sort\<close>

lemma mset_insert_by: "mset (insert_by cmp x xs) = add_mset x (mset xs)"
  by (induction xs) auto

lemma mset_array_sort: "mset (array_sort cmp xs) = mset xs"
  by (induction xs) (auto simp: array_sort_def mset_insert_by)

lemma set_insert_by: "set (insert_by cmp x xs) = insert x (set xs)"
  by (induction xs) auto

lemma sorted_insert_by:
  "sorted_wrt (\<lambda>a b. f b \<le> f a) xs \<Longrightarrow>
   sorted_wrt (\<lambda>a b. f b \<le> f a) (insert_by (\<lambda>a b. f b - f a) x xs)"
  by (induction xs) (auto simp: set_insert_by)

lemma sorted_array_sort:
  "sorted_wrt (\<lambda>a b. f b \<le> (f a :: int)) (array_sort (\<lambda>a b. f b - f a) xs)"
  by (induction xs) (auto simp: array_sort_def sorted_insert_by)

lemma filter_insert_by:
  "filter (\<lambda>c. f c = t) (insert_by (\<lambda>a b. f b - f a) x xs) =
     (if f x = t then x # filter (\<lambda>c. f c = t) xs else filter (\<lambda>c. f c = (t::int)) xs)"
  by (induction xs) auto

lemma filter_array_sort:
  "filter (\<lambda>c. f c = t) (array_sort (\<lambda>a b. f b - f a) xs) = filter (\<lambda>c. f c = (t::int)) xs"
  by (induction xs) (auto simp: array_sort_def filter_insert_by)

section \<open>Facts about the runner\<close>

lemma progress_at_eq: "progress_at step = 10 * int step"
  by (simp add: progress_at_def totalSteps_def)

lemma spread_processing:
  "spread j (processing_update p) = j \<lparr> status := Processing, progress := p \<rparr>"
  by (simp add: spread_def processing_update_def no_updates_def)

lemma spread_failed:
  "spread j failed_update = j \<lparr> status := Failed, progress := 0 \<rparr>"
  by (simp add: spread_def failed_update_def no_updates_def)

lemma spread_completed:
  "spread j (completed_update p out t) =
     j \<lparr> convertedFilePath := Some out, status := Completed, progress := p,
         completedAt := Some t \<rparr>"
  by (simp add: spread_def completed_update_def no_updates_def)

lemma await_frame [simp]:
  "calls (await_updateConversion cid u w) = calls w @ [(cid, u)]"
  "disk (await_updateConversion cid u w) = disk w"
  "console (await_updateConversion cid u w) = console w"
  by (simp_all add: await_updateConversion_def Let_def)

lemma await_present:
  assumes "map_get (storage w) cid = Some j"
  shows "storage (await_updateConversion cid u w) = map_set cid (spread j u) (storage w)"
    and "snapshots (await_updateConversion cid u w)
          = snapshots w @ [map_set cid (spread j u) (storage w)]"
    and "map_get (storage (await_updateConversion cid u w)) cid = Some (spread j u)"
    and "job_states cid (await_updateConversion cid u w) = job_states cid w @ [Some (spread j u)]"
  using assms
  by (simp_all add: await_updateConversion_def Let_def updateConversion_present
      map_get_map_set job_states_def)

lemma copy_frame [simp]:
  "storage (copy_original env src out w) = storage w"
  "calls (copy_original env src out w) = calls w"
  "snapshots (copy_original env src out w) = snapshots w"
  by (simp_all add: copy_original_def split: sum.splits)

lemma job_states_copy [simp]: "job_states cid (copy_original env src out w) = job_states cid w"
  by (simp add: job_states_def)

lemma for_steps_reject:
  assumes "reject_at env = Some k" "k \<le> totalSteps" "step \<le> k"
  shows "for_steps env cid conv step w =
     Inl (Rejected k,
       (if k = totalSteps then copy_original env (originalFilePath conv) (outputPath cid) else id)
         (fold (\<lambda>n. await_updateConversion cid (processing_update (progress_at n)))
            [step..<k] w))"
  using assms(3)
proof (induction "k - step" arbitrary: step w)
  case 0
  then have "step = k" by simp
  with assms(1,2) show ?case
    by (subst for_steps.simps) (simp add: step_body_def try_update_def)
next
  case (Suc d)
  then have lt: "step < k" by auto
  with assms(1) have nr: "reject_at env \<noteq> Some step" by auto
  have d: "d = k - Suc step" using Suc.hyps(2) by simp
  have ih: "for_steps env cid conv (Suc step)
        (await_updateConversion cid (processing_update (progress_at step)) w) =
     Inl (Rejected k,
       (if k = totalSteps then copy_original env (originalFilePath conv) (outputPath cid) else id)
         (fold (\<lambda>n. await_updateConversion cid (processing_update (progress_at n)))
            [Suc step..<k]
            (await_updateConversion cid (processing_update (progress_at step)) w)))"
    using Suc.hyps(1) [OF d] lt by simp
  from lt assms(2) have ne: "step \<noteq> totalSteps" "step \<le> totalSteps" by auto
  show ?case
    using ne nr lt ih
    by (subst for_steps.simps) (simp add: step_body_def try_update_def upt_conv_Cons)
qed

lemma for_steps_complete:
  assumes "step \<le> totalSteps"
    and "\<forall>k. reject_at env = Some k \<longrightarrow> k < step \<or> totalSteps < k"
  shows "for_steps env cid conv step w =
     Inr (await_updateConversion cid
            (completed_update (progress_at totalSteps) (outputPath cid) (completion_time env))
            (copy_original env (originalFilePath conv) (outputPath cid)
               (fold (\<lambda>n. await_updateConversion cid (processing_update (progress_at n)))
                  [step..<totalSteps] w)))"
  using assms
proof (induction "totalSteps - step" arbitrary: step w)
  case 0
  then have eq: "step = totalSteps" by simp
  with "0.prems"(2) have nr: "reject_at env \<noteq> Some totalSteps" by force
  from eq nr show ?case
    by (subst for_steps.simps, simp add: step_body_def try_update_def)
       (subst for_steps.simps, simp)
next
  case (Suc d)
  then have lt: "step < totalSteps" by auto
  with Suc.prems(2) have nr: "reject_at env \<noteq> Some step" by auto
  have d: "d = totalSteps - Suc step" using Suc.hyps(2) by simp
  have ih: "for_steps env cid conv (Suc step)
        (await_updateConversion cid (processing_update (progress_at step)) w) =
     Inr (await_updateConversion cid
            (completed_update (progress_at totalSteps) (outputPath cid) (completion_time env))
            (copy_original env (originalFilePath conv) (outputPath cid)
               (fold (\<lambda>n. await_updateConversion cid (processing_update (progress_at n)))
                  [Suc step..<totalSteps]
                  (await_updateConversion cid (processing_update (progress_at step)) w))))"
  proof -
    from Suc.prems(2)
    have "\<forall>k. reject_at env = Some k \<longrightarrow> k < Suc step \<or> totalSteps < k"
      by (meson less_Suc_eq)
    with Suc.hyps(1) [OF d] lt show ?thesis by simp
  qed
  show ?case
    using nr lt ih
    by (subst for_steps.simps) (simp add: step_body_def try_update_def upt_conv_Cons)
qed

lemma fold_processing_calls:
  "calls (fold (\<lambda>n. await_updateConversion cid (processing_update (progress_at n))) ns w)
     = calls w @ map (\<lambda>n. (cid, processing_update (progress_at n))) ns"
  by (induction ns arbitrary: w) simp_all

lemma fold_processing_frame:
  "disk (fold (\<lambda>n. await_updateConversion cid (processing_update (progress_at n))) ns w) = disk w"
  "console (fold (\<lambda>n. await_updateConversion cid (processing_update (progress_at n))) ns w)
     = console w"
  by (induction ns arbitrary: w) simp_all

lemma fold_processing_states:
  assumes "map_get (storage w) cid = Some j"
  shows "job_states cid
      (fold (\<lambda>n. await_updateConversion cid (processing_update (progress_at n))) ns w)
     = job_states cid w @ map (\<lambda>n. Some (j \<lparr> status := Processing, progress := progress_at n \<rparr>)) ns"
  using assms
proof (induction ns arbitrary: w j)
  case Nil
  show ?case by simp
next
  case (Cons n ns)
  let ?w = "await_updateConversion cid (processing_update (progress_at n)) w"
  let ?j = "j \<lparr> status := Processing, progress := progress_at n \<rparr>"
  have g: "map_get (storage ?w) cid = Some ?j"
    using await_present(3) [OF Cons.prems] by (simp add: spread_processing)
  have s: "job_states cid ?w = job_states cid w @ [Some ?j]"
    using await_present(4) [OF Cons.prems] by (simp add: spread_processing)
  show ?case
    using Cons.IH [OF g] s by simp
qed

lemma fold_processing_job:
  assumes "map_get (storage w) cid = Some j"
  shows "map_get (storage
      (fold (\<lambda>n. await_updateConversion cid (processing_update (progress_at n))) ns w)) cid
     = Some (if ns = [] then j else j \<lparr> status := Processing, progress := progress_at (last ns) \<rparr>)"
  using assms
proof (induction ns arbitrary: w j)
  case Nil
  then show ?case by simp
next
  case (Cons n ns)
  let ?w = "await_updateConversion cid (processing_update (progress_at n)) w"
  let ?j = "j \<lparr> status := Processing, progress := progress_at n \<rparr>"
  have g: "map_get (storage ?w) cid = Some ?j"
    using await_present(3) [OF Cons.prems] by (simp add: spread_processing)
  show ?case
    using Cons.IH [OF g] by simp
qed


lemma run_complete:
  assumes "map_get (storage w) cid = Some j"
    and "\<forall>k. reject_at env = Some k \<longrightarrow> totalSteps < k"
  shows "processAudioFile env cid w =
     (None, await_updateConversion cid
       (completed_update (progress_at totalSteps) (outputPath cid) (completion_time env))
       (copy_original env (originalFilePath j) (outputPath cid)
          (fold (\<lambda>n. await_updateConversion cid (processing_update (progress_at n)))
             [1..<totalSteps] w)))"
proof -
  from assms(2) have z: "reject_at env \<noteq> Some 0" by (auto simp: totalSteps_def)
  from assms(2) have r: "\<forall>k. reject_at env = Some k \<longrightarrow> k < 1 \<or> totalSteps < k" by auto
  have "1 \<le> totalSteps" by (simp add: totalSteps_def)
  from for_steps_complete [OF this r] z assms(1) show ?thesis
    by (simp add: processAudioFile_def getConversion_def)
qed

lemma run_rejected:
  assumes "map_get (storage w) cid = Some j"
    and "reject_at env = Some k" "k \<le> totalSteps"
  shows "processAudioFile env cid w =
     catch_block env cid
       ((if k = totalSteps then copy_original env (originalFilePath j) (outputPath cid) else id)
         (fold (\<lambda>n. await_updateConversion cid (processing_update (progress_at n))) [1..<k] w))"
proof (cases "k = 0")
  case True
  with assms(2) show ?thesis
    by (simp add: processAudioFile_def totalSteps_def)
next
  case False
  then have k1: "1 \<le> k" by simp
  from assms(2) False have z: "reject_at env \<noteq> Some 0" by auto
  from for_steps_reject [OF assms(2) assms(3) k1] z assms(1) show ?thesis
    by (simp add: processAudioFile_def getConversion_def)
qed

lemma catch_block_resolves:
  assumes "\<not> catch_rejects env"
  shows "catch_block env cid w =
     (None, await_updateConversion cid failed_update (w \<lparr> console := console w @ [ProcessingError] \<rparr>))"
  using assms by (simp add: catch_block_def Let_def)

lemma catch_block_rejects:
  assumes "catch_rejects env"
  shows "catch_block env cid w = (Some CatchRejected, w \<lparr> console := console w @ [ProcessingError] \<rparr>)"
  using assms by (simp add: catch_block_def Let_def)

lemma catch_block_frame [simp]:
  "disk (snd (catch_block env cid w)) = disk w"
  "console (snd (catch_block env cid w)) = console w @ [ProcessingError]"
  by (simp_all add: catch_block_def Let_def)

lemma catch_block_present:
  assumes "map_get (storage w) cid = Some j" "\<not> catch_rejects env"
  shows "map_get (storage (snd (catch_block env cid w))) cid
          = Some (j \<lparr> status := Failed, progress := 0 \<rparr>)"
    and "job_states cid (snd (catch_block env cid w))
          = job_states cid w @ [Some (j \<lparr> status := Failed, progress := 0 \<rparr>)]"
    and "calls (snd (catch_block env cid w)) = calls w @ [(cid, failed_update)]"
proof -
  let ?w = "w \<lparr> console := console w @ [ProcessingError] \<rparr>"
  from assms have g: "map_get (storage ?w) cid = Some j" by simp
  have s: "job_states cid ?w = job_states cid w" by (simp add: job_states_def)
  from await_present(3) [OF g] show "map_get (storage (snd (catch_block env cid w))) cid
      = Some (j \<lparr> status := Failed, progress := 0 \<rparr>)"
    by (simp add: catch_block_resolves [OF assms(2)] spread_failed)
  from await_present(4) [OF g] s show "job_states cid (snd (catch_block env cid w))
          = job_states cid w @ [Some (j \<lparr> status := Failed, progress := 0 \<rparr>)]"
    by (simp add: catch_block_resolves [OF assms(2)] spread_failed)
  show "calls (snd (catch_block env cid w)) = calls w @ [(cid, failed_update)]"
    by (simp add: catch_block_resolves [OF assms(2)])
qed

lemma catch_block_rejected_frame:
  assumes "catch_rejects env"
  shows "storage (snd (catch_block env cid w)) = storage w"
    and "job_states cid (snd (catch_block env cid w)) = job_states cid w"
    and "calls (snd (catch_block env cid w)) = calls w"
    and "fst (catch_block env cid w) = Some CatchRejected"
  by (simp_all add: catch_block_rejects [OF assms] job_states_def)

lemma rejection_world_frame [simp]:
  "storage ((if b then copy_original env src out else id) w) = storage w"
  "calls ((if b then copy_original env src out else id) w) = calls w"
  "job_states cid ((if b then copy_original env src out else id) w) = job_states cid w"
  by simp_all

lemma run_complete_states:
  assumes "map_get (storage w) cid = Some j"
    and "\<forall>k. reject_at env = Some k \<longrightarrow> totalSteps < k"
  shows "map_get (storage (snd (processAudioFile env cid w))) cid =
      Some (j \<lparr> convertedFilePath := Some (outputPath cid), status := Completed,
        progress := progress_at totalSteps, completedAt := Some (completion_time env) \<rparr>)"
    and "job_states cid (snd (processAudioFile env cid w)) = job_states cid w
       @ map (\<lambda>n. Some (j \<lparr> status := Processing, progress := progress_at n \<rparr>)) [1..<totalSteps]
       @ [Some (j \<lparr> convertedFilePath := Some (outputPath cid), status := Completed,
        progress := progress_at totalSteps, completedAt := Some (completion_time env) \<rparr>)]"
proof -
  let ?w8 = "fold (\<lambda>n. await_updateConversion cid (processing_update (progress_at n)))
             [1..<totalSteps] w"
  let ?w9 = "copy_original env (originalFilePath j) (outputPath cid) ?w8"
  let ?u = "completed_update (progress_at totalSteps) (outputPath cid) (completion_time env)"
  let ?j9 = "j \<lparr> status := Processing, progress := progress_at 9 \<rparr>"
  let ?fin = "j \<lparr> convertedFilePath := Some (outputPath cid), status := Completed,
        progress := progress_at totalSteps, completedAt := Some (completion_time env) \<rparr>"
  have run: "processAudioFile env cid w = (None, await_updateConversion cid ?u ?w9)"
    using assms by (rule run_complete)
  have "map_get (storage ?w8) cid = Some ?j9"
    using fold_processing_job [OF assms(1), of "[1..<totalSteps]"] by (simp add: totalSteps_def)
  then have g: "map_get (storage ?w9) cid = Some ?j9" by simp
  have s: "job_states cid ?w9 = job_states cid w
       @ map (\<lambda>n. Some (j \<lparr> status := Processing, progress := progress_at n \<rparr>)) [1..<totalSteps]"
    using fold_processing_states [OF assms(1), of "[1..<totalSteps]"] by simp
  have d: "spread ?j9 ?u = ?fin"
    by (simp add: spread_completed)
  from await_present(3) [OF g, of ?u] d run
  show "map_get (storage (snd (processAudioFile env cid w))) cid = Some ?fin"
    by simp
  from await_present(4) [OF g, of ?u] d s run
  show "job_states cid (snd (processAudioFile env cid w)) = job_states cid w
       @ map (\<lambda>n. Some (j \<lparr> status := Processing, progress := progress_at n \<rparr>)) [1..<totalSteps]
       @ [Some ?fin]"
    by simp
qed

lemma run_rejected_states:
  assumes "map_get (storage w) cid = Some j"
    and "reject_at env = Some k" "k \<le> totalSteps"
  shows "\<exists>j'. j' = (if k \<le> 1 then j
                   else j \<lparr> status := Processing, progress := progress_at (k - 1) \<rparr>)
     \<and> map_get (storage (snd (processAudioFile env cid w))) cid =
         Some (if catch_rejects env then j' else j' \<lparr> status := Failed, progress := 0 \<rparr>)
     \<and> job_states cid (snd (processAudioFile env cid w)) = job_states cid w
       @ map (\<lambda>n. Some (j \<lparr> status := Processing, progress := progress_at n \<rparr>)) [1..<k]
       @ (if catch_rejects env then [] else [Some (j' \<lparr> status := Failed, progress := 0 \<rparr>)])"
proof -
  let ?w' = "fold (\<lambda>n. await_updateConversion cid (processing_update (progress_at n))) [1..<k] w"
  let ?c = "(if k = totalSteps then copy_original env (originalFilePath j) (outputPath cid) else id) ?w'"
  let ?j' = "if k \<le> 1 then j else j \<lparr> status := Processing, progress := progress_at (k - 1) \<rparr>"
  have run: "processAudioFile env cid w = catch_block env cid ?c"
    using assms by (rule run_rejected)
  have "map_get (storage ?w') cid = Some ?j'"
    using fold_processing_job [OF assms(1), of "[1..<k]"] by (cases "k \<le> 1") auto
  then have g: "map_get (storage ?c) cid = Some ?j'" by (simp only: rejection_world_frame)
  have "job_states cid ?w' = job_states cid w
       @ map (\<lambda>n. Some (j \<lparr> status := Processing, progress := progress_at n \<rparr>)) [1..<k]"
    using fold_processing_states [OF assms(1), of "[1..<k]"] by simp
  then have s: "job_states cid ?c = job_states cid w
       @ map (\<lambda>n. Some (j \<lparr> status := Processing, progress := progress_at n \<rparr>)) [1..<k]"
    by (simp only: rejection_world_frame)
  show ?thesis
  proof (cases "catch_rejects env")
    case True
    from catch_block_rejected_frame(1,2) [OF True, of cid ?c] g s run True show ?thesis
      by simp
  next
    case False
    from catch_block_present(1,2) [OF g False] s run False show ?thesis
      by simp
  qed
qed

lemma last_processing:
  "last (j # map (\<lambda>n. j \<lparr> status := Processing, progress := progress_at n \<rparr>) [1..<m])
     = (if m \<le> 1 then j else j \<lparr> status := Processing, progress := progress_at (m - 1) \<rparr>)"
  by (cases "m \<le> 1") (simp_all add: last_map)

lemma run_states:
  assumes "map_get (storage w) cid = Some j"
  shows "\<exists>m fins. 1 \<le> m \<and> m \<le> totalSteps
     \<and> job_states cid (snd (processAudioFile env cid w)) = job_states cid w
        @ map Some (map (\<lambda>n. j \<lparr> status := Processing, progress := progress_at n \<rparr>) [1..<m]
                    @ fins)
     \<and> map_get (storage (snd (processAudioFile env cid w))) cid
         = Some (last (j # map (\<lambda>n. j \<lparr> status := Processing, progress := progress_at n \<rparr>)
                            [1..<m] @ fins))
     \<and> (fins = []
        \<or> (\<exists>fin. fins = [fin]
             \<and> (status fin = Failed \<and> progress fin = 0
                  \<and> convertedFilePath fin = convertedFilePath j
                \<or> m = totalSteps
                  \<and> fin = j \<lparr> convertedFilePath := Some (outputPath cid), status := Completed,
                       progress := progress_at totalSteps,
                       completedAt := Some (completion_time env) \<rparr>)))"
proof (cases "\<exists>k. reject_at env = Some k \<and> k \<le> totalSteps")
  case True
  then obtain k where k: "reject_at env = Some k" "k \<le> totalSteps" by blast
  let ?f = "\<lambda>n. j \<lparr> status := Processing, progress := progress_at n \<rparr>"
  let ?m = "max k 1"
  let ?j' = "if ?m \<le> 1 then j else j \<lparr> status := Processing, progress := progress_at (?m - 1) \<rparr>"
  let ?fins = "if catch_rejects env then [] else [?j' \<lparr> status := Failed, progress := 0 \<rparr>]"
  have u: "[1..<?m] = [1..<k]" by (cases "k = 0") (simp_all add: max_def)
  have jj: "?j' = (if k \<le> 1 then j
                   else j \<lparr> status := Processing, progress := progress_at (k - 1) \<rparr>)"
    by (cases "k = 0") (simp_all add: max_def)
  from run_rejected_states [OF assms k]
  have g: "map_get (storage (snd (processAudioFile env cid w))) cid =
         Some (if catch_rejects env then ?j' else ?j' \<lparr> status := Failed, progress := 0 \<rparr>)"
    and s: "job_states cid (snd (processAudioFile env cid w)) = job_states cid w
       @ map (\<lambda>n. Some (?f n)) [1..<k]
       @ (if catch_rejects env then [] else [Some (?j' \<lparr> status := Failed, progress := 0 \<rparr>)])"
    unfolding jj by blast+
  have b: "1 \<le> ?m" "?m \<le> totalSteps" using k(2) by (simp_all add: totalSteps_def)
  have s': "job_states cid (snd (processAudioFile env cid w)) = job_states cid w
        @ map Some (map ?f [1..<?m] @ ?fins)"
    using s u by simp
  have l: "last (j # map ?f [1..<?m] @ ?fins)
      = (if catch_rejects env then ?j' else ?j' \<lparr> status := Failed, progress := 0 \<rparr>)"
    using last_processing [of j ?m] by (cases "catch_rejects env") simp_all
  have g': "map_get (storage (snd (processAudioFile env cid w))) cid
         = Some (last (j # map ?f [1..<?m] @ ?fins))"
    using g l by simp
  have p: "convertedFilePath (?j' \<lparr> status := Failed, progress := 0 \<rparr>) = convertedFilePath j"
    by simp
  have shape: "?fins = []
        \<or> (\<exists>fin. ?fins = [fin]
             \<and> (status fin = Failed \<and> progress fin = 0
                  \<and> convertedFilePath fin = convertedFilePath j
                \<or> ?m = totalSteps
                  \<and> fin = j \<lparr> convertedFilePath := Some (outputPath cid), status := Completed,
                       progress := progress_at totalSteps,
                       completedAt := Some (completion_time env) \<rparr>))"
    using p by (cases "catch_rejects env") simp_all
  from b s' g' shape show ?thesis
    by (intro exI [of _ ?m] exI [of _ ?fins] conjI)
next
  case False
  then have quiet: "\<forall>k. reject_at env = Some k \<longrightarrow> totalSteps < k" by auto
  let ?fin = "j \<lparr> convertedFilePath := Some (outputPath cid), status := Completed,
               progress := progress_at totalSteps, completedAt := Some (completion_time env) \<rparr>"
  from run_complete_states [OF assms quiet]
  have "map_get (storage (snd (processAudioFile env cid w))) cid = Some ?fin"
    and "job_states cid (snd (processAudioFile env cid w)) = job_states cid w
        @ map Some (map (\<lambda>n. j \<lparr> status := Processing, progress := progress_at n \<rparr>)
                      [1..<totalSteps] @ [?fin])"
    by simp_all
  then show ?thesis
    by (intro exI [of _ totalSteps] exI [of _ "[?fin]"]) (simp add: totalSteps_def)
qed

lemma lifecycle_chain:
  assumes "status j \<noteq> Completed" "status j \<noteq> Failed"
    and "sorted ns" "\<forall>n\<in>set ns. progress j \<le> progress_at n"
    and "status fin \<noteq> Pending"
    and "status fin = Failed \<and> progress fin = 0
         \<or> progress j \<le> progress fin \<and> (\<forall>n\<in>set ns. progress_at n \<le> progress fin)"
  shows "successively lifecycle_step
     (j # map (\<lambda>n. j \<lparr> status := Processing, progress := progress_at n \<rparr>) ns @ [fin])"
  using assms
proof (induction ns arbitrary: j)
  case Nil
  then show ?case by (auto simp: lifecycle_step_def)
next
  case (Cons n ns)
  let ?j = "j \<lparr> status := Processing, progress := progress_at n \<rparr>"
  have mono: "\<forall>m\<in>set ns. progress_at n \<le> progress_at m"
    using Cons.prems(3) by (auto simp: progress_at_eq)
  have step: "lifecycle_step j ?j"
    using Cons.prems by (simp add: lifecycle_step_def)
  have rest: "successively lifecycle_step
     (?j # map (\<lambda>m. ?j \<lparr> status := Processing, progress := progress_at m \<rparr>) ns @ [fin])"
  proof (rule Cons.IH)
    show "status ?j \<noteq> Completed" "status ?j \<noteq> Failed" by simp_all
    show "sorted ns" using Cons.prems(3) by simp
    show "\<forall>m\<in>set ns. progress ?j \<le> progress_at m" using mono by simp
    show "status fin \<noteq> Pending" by (rule Cons.prems(5))
    show "status fin = Failed \<and> progress fin = 0
         \<or> progress ?j \<le> progress fin \<and> (\<forall>n\<in>set ns. progress_at n \<le> progress fin)"
      using Cons.prems(6) by auto
  qed
  from step rest show ?case by simp
qed

lemma createConversion_stored:
  assumes "createConversion ins uuid now conversions = (job, conversions')"
  shows "map_get conversions' uuid = Some job"
    and "convertedFilePath job = ins_convertedFilePath ins"
    and "status job = (case ins_status ins of None \<Rightarrow> Pending | Some s \<Rightarrow> s)"
    and "progress job = (case ins_progress ins of None \<Rightarrow> 0 | Some p \<Rightarrow> p)"
  using assms by (auto simp: createConversion_def Let_def map_get_map_set)

lemma post_upload_accepts_sample:
  "post_upload sample_upload ''c'' 3000 sample_store
     = ((200, JsonConversion (fst sample_created)), snd sample_created, Some ''c'')"
  by (simp add: post_upload_def sample_upload_def upload_single_def fileFilter_def
      allowedTypes_def fileSize_limit_def safeParse_def parse_intensity_def
      sample_created_def sample_insert_def createConversion_def Let_def)

lemma sample_present: "fst (getConversion ''a'' (storage sample_world)) = Some sample_job"
  by (simp add: getConversion_def map_get_def sample_world_def sample_store_def)

lemma sample_quiet: "reject_at sample_env = None"
  by (simp add: sample_env_def)


lemma sample_created_eq:
  "createConversion sample_insert ''c'' 3000 sample_store = (fst sample_created, snd sample_created)"
  by (simp add: sample_created_def)



lemma post_upload_created:
  assumes "post_upload req uuid now conversions
     = ((200, JsonConversion job), conversions', Some cid)"
  shows "cid = uuid" and "map_get conversions' cid = Some job"
    and "status job = Pending" and "progress job = 0" and "convertedFilePath job = None"
  using assms
  by (auto simp: post_upload_def reject_upload_def safeParse_def createConversion_def Let_def
      map_get_map_set split: sum.splits option.splits if_splits)

lemma successively_butlast: "successively P (xs @ [y]) \<Longrightarrow> successively P xs"
  by (simp add: successively_append_iff)

lemma sample_fresh_present:
  "fst (getConversion ''c'' (storage (fresh_world (snd sample_created)))) = Some (fst sample_created)"
  using createConversion_stored(1) [OF sample_created_eq]
  by (simp add: getConversion_def fresh_world_def)

lemma sample_fresh_states: "job_states ''c'' (fresh_world conversions) = []"
  by (simp add: job_states_def fresh_world_def)

lemma sample_run_length:
  "length (job_states ''c'' (snd (processAudioFile sample_env ''c''
      (fresh_world (snd sample_created))))) = 10"
proof -
  have q: "\<forall>k. reject_at sample_env = Some k \<longrightarrow> totalSteps < k"
    by (simp add: sample_env_def)
  have p: "map_get (storage (fresh_world (snd sample_created))) ''c'' = Some (fst sample_created)"
    using sample_fresh_present by (simp add: getConversion_def)
  from run_complete_states(2) [OF p q] show ?thesis
    by (simp add: sample_fresh_states totalSteps_def)
qed

section \<open>updateConversion\<close>

text \<open>
  C6. When the id is present, \<open>updateConversion\<close> returns and stores the shallow merge of
  the existing record and the update: a field the update names takes the update's value,
  a field it does not name keeps the existing value. Every other key still maps to the
  record it had, and the keys keep their order.
\<close>

theorem updateConversion_shallow_merge:
  assumes "fst (getConversion cid conversions) = Some existing"
  shows "\<exists>updated conversions'.
     updateConversion cid updates conversions = (Some updated, conversions')
   \<and> fst (getConversion cid conversions') = Some updated
   \<and> (\<forall>k. k \<noteq> cid \<longrightarrow> fst (getConversion k conversions') = fst (getConversion k conversions))
   \<and> map fst conversions' = map fst conversions
   \<and> conv_id updated = (case upd_id updates of None \<Rightarrow> conv_id existing | Some v \<Rightarrow> v)
   \<and> originalFilename updated =
       (case upd_originalFilename updates of None \<Rightarrow> originalFilename existing | Some v \<Rightarrow> v)
   \<and> originalFilePath updated =
       (case upd_originalFilePath updates of None \<Rightarrow> originalFilePath existing | Some v \<Rightarrow> v)
   \<and> convertedFilePath updated =
       (case upd_convertedFilePath updates of None \<Rightarrow> convertedFilePath existing | Some v \<Rightarrow> v)
   \<and> intensity updated =
       (case upd_intensity updates of None \<Rightarrow> intensity existing | Some v \<Rightarrow> v)
   \<and> status updated = (case upd_status updates of None \<Rightarrow> status existing | Some v \<Rightarrow> v)
   \<and> progress updated = (case upd_progress updates of None \<Rightarrow> progress existing | Some v \<Rightarrow> v)
   \<and> metadata updated = (case upd_metadata updates of None \<Rightarrow> metadata existing | Some v \<Rightarrow> v)
   \<and> createdAt updated = (case upd_createdAt updates of None \<Rightarrow> createdAt existing | Some v \<Rightarrow> v)
   \<and> completedAt updated =
       (case upd_completedAt updates of None \<Rightarrow> completedAt existing | Some v \<Rightarrow> v)"
proof -
  let ?u = "spread existing updates"
  let ?s = "map_set cid ?u conversions"
  from assms have present: "map_get conversions cid = Some existing"
    by (simp add: getConversion_def)
  have run: "updateConversion cid updates conversions = (Some ?u, ?s)"
    using present by (rule updateConversion_present)
  have stored: "fst (getConversion cid ?s) = Some ?u"
    by (simp add: getConversion_def map_get_map_set)
  have others: "\<forall>k. k \<noteq> cid \<longrightarrow> fst (getConversion k ?s) = fst (getConversion k conversions)"
    by (simp add: getConversion_def map_get_map_set)
  have keys: "map fst ?s = map fst conversions"
    using map_fst_updateConversion [of cid updates conversions] run by simp
  have fields: "conv_id ?u = (case upd_id updates of None \<Rightarrow> conv_id existing | Some v \<Rightarrow> v)"
    "originalFilename ?u =
       (case upd_originalFilename updates of None \<Rightarrow> originalFilename existing | Some v \<Rightarrow> v)"
    "originalFilePath ?u =
       (case upd_originalFilePath updates of None \<Rightarrow> originalFilePath existing | Some v \<Rightarrow> v)"
    "convertedFilePath ?u =
       (case upd_convertedFilePath updates of None \<Rightarrow> convertedFilePath existing | Some v \<Rightarrow> v)"
    "intensity ?u = (case upd_intensity updates of None \<Rightarrow> intensity existing | Some v \<Rightarrow> v)"
    "status ?u = (case upd_status updates of None \<Rightarrow> status existing | Some v \<Rightarrow> v)"
    "progress ?u = (case upd_progress updates of None \<Rightarrow> progress existing | Some v \<Rightarrow> v)"
    "metadata ?u = (case upd_metadata updates of None \<Rightarrow> metadata existing | Some v \<Rightarrow> v)"
    "createdAt ?u = (case upd_createdAt updates of None \<Rightarrow> createdAt existing | Some v \<Rightarrow> v)"
    "completedAt ?u =
       (case upd_completedAt updates of None \<Rightarrow> completedAt existing | Some v \<Rightarrow> v)"
    by (simp_all add: spread_def)
  from run stored others keys fields show ?thesis by blast
qed

theorem updateConversion_shallow_merge_witness:
  "fst (getConversion ''a'' sample_store) = Some sample_job
   \<and> fst (updateConversion ''a'' (no_updates \<lparr> upd_status := Some Processing,
          upd_progress := Some 10 \<rparr>) sample_store)
       = Some (sample_job \<lparr> status := Processing, progress := 10 \<rparr>)"
proof -
  have h: "fst (getConversion ''a'' sample_store) = Some sample_job"
    by (simp add: getConversion_def map_get_def sample_store_def)
  from updateConversion_shallow_merge [OF h,
      of "no_updates \<lparr> upd_status := Some Processing, upd_progress := Some 10 \<rparr>"]
  obtain updated conversions' where
    r: "updateConversion ''a'' (no_updates \<lparr> upd_status := Some Processing,
          upd_progress := Some 10 \<rparr>) sample_store = (Some updated, conversions')"
    and f: "conv_id updated = conv_id sample_job"
      "originalFilename updated = originalFilename sample_job"
      "originalFilePath updated = originalFilePath sample_job"
      "convertedFilePath updated = convertedFilePath sample_job"
      "intensity updated = intensity sample_job"
      "status updated = Processing" "progress updated = 10"
      "metadata updated = metadata sample_job"
      "createdAt updated = createdAt sample_job"
      "completedAt updated = completedAt sample_job"
    by (auto simp: no_updates_def)
  from f have "updated = sample_job \<lparr> status := Processing, progress := 10 \<rparr>"
    by simp
  with h r show ?thesis by simp
qed

text \<open>
  C7. When the id is absent, \<open>updateConversion\<close> returns \<open>undefined\<close> and leaves the store
  as it was: no record is created and nothing is raised (the only results of the model
  are a record or \<open>None\<close>).
\<close>

theorem updateConversion_unknown_id:
  assumes "fst (getConversion cid conversions) = None"
  shows "updateConversion cid updates conversions = (None, conversions)"
  using assms by (simp add: getConversion_def updateConversion_absent)

theorem updateConversion_unknown_id_witness:
  "fst (getConversion ''zz'' sample_store) = None
   \<and> updateConversion ''zz'' (no_updates \<lparr> upd_status := Some Failed, upd_progress := Some 0 \<rparr>)
        sample_store = (None, sample_store)"
proof -
  have h: "fst (getConversion ''zz'' sample_store) = None"
    by (simp add: getConversion_def map_get_def sample_store_def)
  from h updateConversion_unknown_id [OF h] show ?thesis by simp
qed

text \<open>
  C10. \<open>updateConversion\<close> never changes the key set of the store, whatever the id and
  the update. When the id is present the merged record is stored under that same key,
  also when the update names another \<open>id\<close> or \<open>createdAt\<close>, so \<open>getConversion\<close> with the
  original id returns the merged record.
\<close>

theorem updateConversion_keeps_keys:
  "map_keys (snd (updateConversion cid updates conversions)) = map_keys conversions
   \<and> map fst (snd (updateConversion cid updates conversions)) = map fst conversions
   \<and> (\<forall>existing. fst (getConversion cid conversions) = Some existing \<longrightarrow>
        fst (getConversion cid (snd (updateConversion cid updates conversions)))
          = Some (spread existing updates))"
proof -
  have order: "map fst (snd (updateConversion cid updates conversions)) = map fst conversions"
    by (rule map_fst_updateConversion)
  have "set (map fst (snd (updateConversion cid updates conversions))) = set (map fst conversions)"
    by (simp only: order)
  then have keys: "map_keys (snd (updateConversion cid updates conversions)) = map_keys conversions"
    by (simp add: map_keys_def)
  have kept: "fst (getConversion cid (snd (updateConversion cid updates conversions)))
      = Some (spread existing updates)"
    if "fst (getConversion cid conversions) = Some existing" for existing
  proof -
    from that have "map_get conversions cid = Some existing"
      by (simp add: getConversion_def)
    then show ?thesis
      by (simp add: updateConversion_present getConversion_def map_get_map_set)
  qed
  from keys order kept show ?thesis by blast
qed

theorem updateConversion_keeps_keys_witness:
  "fst (getConversion ''a'' sample_store) = Some sample_job
   \<and> map_keys (snd (updateConversion ''a''
        (no_updates \<lparr> upd_id := Some ''other'', upd_createdAt := Some 5 \<rparr>) sample_store))
       = {''a'', ''b''}
   \<and> fst (getConversion ''a'' (snd (updateConversion ''a''
        (no_updates \<lparr> upd_id := Some ''other'', upd_createdAt := Some 5 \<rparr>) sample_store)))
       = Some (sample_job \<lparr> conv_id := ''other'', createdAt := 5 \<rparr>)"
proof -
  have h: "fst (getConversion ''a'' sample_store) = Some sample_job"
    by (simp add: getConversion_def map_get_def sample_store_def)
  have k: "map_keys sample_store = {''a'', ''b''}"
    by (simp add: map_keys_def sample_store_def)
  have m: "spread sample_job (no_updates \<lparr> upd_id := Some ''other'', upd_createdAt := Some 5 \<rparr>)
      = sample_job \<lparr> conv_id := ''other'', createdAt := 5 \<rparr>"
    by (simp add: spread_def no_updates_def sample_job_def)
  from updateConversion_keeps_keys [of "''a''"
      "no_updates \<lparr> upd_id := Some ''other'', upd_createdAt := Some 5 \<rparr>" sample_store] h k m
  show ?thesis by simp
qed

section \<open>The job runner\<close>

text \<open>
  C1. When the job is in the store at the start and nothing in the run fails, the runner
  makes exactly 10 updates, one per step: on step N < 10 it sets status = processing and
  progress = \<open>round (N / 10 * 100) = 10 * N\<close>, on step 10 it sets status = completed,
  progress = 100, \<open>convertedFilePath\<close> to \<open>uploads/converted_{id}.mp3\<close> and \<open>completedAt\<close>
  to the current time. The job goes through the corresponding ten states and ends in the
  completed one, and the runner's promise resolves.
\<close>

theorem processAudioFile_full_run:
  assumes "fst (getConversion cid (storage w)) = Some conversion"
    and "reject_at env = None"
  shows "fst (processAudioFile env cid w) = None
    \<and> calls (snd (processAudioFile env cid w)) = calls w
        @ map (\<lambda>n. (cid, processing_update (10 * int n))) [1..<10]
        @ [(cid, completed_update 100 (''uploads/converted_'' @ cid @ ''.mp3'')
                   (completion_time env))]
    \<and> length (calls (snd (processAudioFile env cid w))) = length (calls w) + 10
    \<and> job_states cid (snd (processAudioFile env cid w)) = job_states cid w
        @ map (\<lambda>n. Some (conversion \<lparr> status := Processing, progress := 10 * int n \<rparr>)) [1..<10]
        @ [Some (conversion \<lparr> convertedFilePath := Some (''uploads/converted_'' @ cid @ ''.mp3''),
             status := Completed, progress := 100,
             completedAt := Some (completion_time env) \<rparr>)]
    \<and> fst (getConversion cid (storage (snd (processAudioFile env cid w)))) =
        Some (conversion \<lparr> convertedFilePath := Some (''uploads/converted_'' @ cid @ ''.mp3''),
             status := Completed, progress := 100,
             completedAt := Some (completion_time env) \<rparr>)"
proof -
  from assms(1) have present: "map_get (storage w) cid = Some conversion"
    by (simp add: getConversion_def)
  from assms(2) have quiet: "\<forall>k. reject_at env = Some k \<longrightarrow> totalSteps < k"
    by simp
  have ten: "totalSteps = 10" by (simp add: totalSteps_def)
  have c: "calls (snd (processAudioFile env cid w)) = calls w
        @ map (\<lambda>n. (cid, processing_update (10 * int n))) [1..<10]
        @ [(cid, completed_update 100 (''uploads/converted_'' @ cid @ ''.mp3'')
                   (completion_time env))]"
    using fold_processing_calls [of cid "[1..<totalSteps]" w]
    by (simp add: run_complete [OF present quiet] progress_at_eq ten outputPath_def)
  from c have l: "length (calls (snd (processAudioFile env cid w))) = length (calls w) + 10"
    by simp
  have s: "job_states cid (snd (processAudioFile env cid w)) = job_states cid w
        @ map (\<lambda>n. Some (conversion \<lparr> status := Processing, progress := 10 * int n \<rparr>)) [1..<10]
        @ [Some (conversion \<lparr> convertedFilePath := Some (''uploads/converted_'' @ cid @ ''.mp3''),
             status := Completed, progress := 100,
             completedAt := Some (completion_time env) \<rparr>)]"
    using run_complete_states(2) [OF present quiet]
    by (simp add: progress_at_eq ten outputPath_def)
  have g: "fst (getConversion cid (storage (snd (processAudioFile env cid w)))) =
        Some (conversion \<lparr> convertedFilePath := Some (''uploads/converted_'' @ cid @ ''.mp3''),
             status := Completed, progress := 100,
             completedAt := Some (completion_time env) \<rparr>)"
    using run_complete_states(1) [OF present quiet]
    by (simp add: progress_at_eq ten outputPath_def getConversion_def)
  have r: "fst (processAudioFile env cid w) = None"
    by (simp add: run_complete [OF present quiet])
  from r c l s g show ?thesis by blast
qed

theorem processAudioFile_full_run_witness:
  "length (calls (snd (processAudioFile sample_env ''a'' sample_world))) = 10
   \<and> fst (getConversion ''a'' (storage (snd (processAudioFile sample_env ''a'' sample_world)))) =
        Some (sample_job \<lparr> convertedFilePath := Some ''uploads/converted_a.mp3'',
             status := Completed, progress := 100, completedAt := Some 21000 \<rparr>)"
  using processAudioFile_full_run [OF sample_present sample_quiet]
  by (simp add: sample_world_def sample_env_def)

text \<open>
  C4. When the original file is not on disk at the last step, the run still ends with the
  job completed, progress 100 and \<open>convertedFilePath\<close> set to the output path. Nothing
  is written to disk, so the output path exists only if it did before; the only trace is
  the console line for the missing original.
\<close>

theorem processAudioFile_missing_source:
  assumes "fst (getConversion cid (storage w)) = Some conversion"
    and "reject_at env = None"
    and "\<not> existsSync (disk w) (originalFilePath conversion)"
  shows "fst (processAudioFile env cid w) = None
    \<and> fst (getConversion cid (storage (snd (processAudioFile env cid w)))) =
        Some (conversion \<lparr> convertedFilePath := Some (''uploads/converted_'' @ cid @ ''.mp3''),
             status := Completed, progress := 100,
             completedAt := Some (completion_time env) \<rparr>)
    \<and> disk (snd (processAudioFile env cid w)) = disk w
    \<and> console (snd (processAudioFile env cid w))
        = console w @ [OriginalFileNotFound (originalFilePath conversion)]"
proof -
  from assms(1) have present: "map_get (storage w) cid = Some conversion"
    by (simp add: getConversion_def)
  from assms(2) have quiet: "\<forall>k. reject_at env = Some k \<longrightarrow> totalSteps < k"
    by simp
  have ten: "totalSteps = 10" by (simp add: totalSteps_def)
  have g: "fst (getConversion cid (storage (snd (processAudioFile env cid w)))) =
        Some (conversion \<lparr> convertedFilePath := Some (''uploads/converted_'' @ cid @ ''.mp3''),
             status := Completed, progress := 100,
             completedAt := Some (completion_time env) \<rparr>)"
    using run_complete_states(1) [OF present quiet]
    by (simp add: progress_at_eq ten outputPath_def getConversion_def)
  have d: "disk (snd (processAudioFile env cid w)) = disk w"
    using assms(3)
    by (simp add: run_complete [OF present quiet] copy_original_def fold_processing_frame)
  have l: "console (snd (processAudioFile env cid w))
        = console w @ [OriginalFileNotFound (originalFilePath conversion)]"
    using assms(3)
    by (simp add: run_complete [OF present quiet] copy_original_def fold_processing_frame)
  have r: "fst (processAudioFile env cid w) = None"
    by (simp add: run_complete [OF present quiet])
  from r g d l show ?thesis by blast
qed


theorem processAudioFile_missing_source_witness:
  "\<not> existsSync (disk sample_world_no_source) (originalFilePath sample_job)
   \<and> fst (getConversion ''a'' (storage (snd (processAudioFile sample_env ''a'' sample_world_no_source))))
       = Some (sample_job \<lparr> convertedFilePath := Some ''uploads/converted_a.mp3'',
             status := Completed, progress := 100, completedAt := Some 21000 \<rparr>)
   \<and> disk (snd (processAudioFile sample_env ''a'' sample_world_no_source)) = []
   \<and> console (snd (processAudioFile sample_env ''a'' sample_world_no_source))
       = [OriginalFileNotFound ''uploads/f1'']"
proof -
  have p: "fst (getConversion ''a'' (storage sample_world_no_source)) = Some sample_job"
    by (simp add: getConversion_def map_get_def sample_world_no_source_def sample_store_def)
  have a: "\<not> existsSync (disk sample_world_no_source) (originalFilePath sample_job)"
    by (simp add: existsSync_def sample_world_no_source_def)
  from processAudioFile_missing_source [OF p sample_quiet a] a show ?thesis
    by (simp add: sample_world_no_source_def sample_env_def sample_job_def)
qed




text \<open>
  C3. A job is created by the upload handler, the only caller of \<open>createConversion\<close>,
  and updated by the runner only. For every accepted upload and every run of the runner
  on the created job, whatever fails during the run, \<open>convertedFilePath\<close> is set if and
  only if the status is completed: at creation and in every state an update of the
  runner puts the job into, the last of which is the stored one.
\<close>

theorem runner_path_iff_completed:
  assumes "post_upload req uuid now conversions
     = ((200, JsonConversion job), conversions', Some cid)"
    and "fst (getConversion cid (storage w)) = Some job"
  shows "fst (getConversion cid conversions') = Some job
    \<and> (\<exists>new. job_states cid (snd (processAudioFile env cid w)) = job_states cid w @ map Some new
          \<and> fst (getConversion cid (storage (snd (processAudioFile env cid w))))
              = Some (last (job # new))
          \<and> list_all path_iff_completed (job # new))"
proof -
  note created = post_upload_created [OF assms(1)]
  have stored: "fst (getConversion cid conversions') = Some job"
    using created(2) by (simp add: getConversion_def)
  have present: "map_get (storage w) cid = Some job"
    using assms(2) by (simp add: getConversion_def)
  let ?f = "\<lambda>n. job \<lparr> status := Processing, progress := progress_at n \<rparr>"
  from run_states [OF present, of env] obtain m fins where
    s: "job_states cid (snd (processAudioFile env cid w)) = job_states cid w
        @ map Some (map ?f [1..<m] @ fins)"
    and g: "map_get (storage (snd (processAudioFile env cid w))) cid
         = Some (last (job # map ?f [1..<m] @ fins))"
    and f: "fins = []
        \<or> (\<exists>fin. fins = [fin]
             \<and> (status fin = Failed \<and> progress fin = 0
                  \<and> convertedFilePath fin = convertedFilePath job
                \<or> m = totalSteps
                  \<and> fin = job \<lparr> convertedFilePath := Some (outputPath cid), status := Completed,
                       progress := progress_at totalSteps,
                       completedAt := Some (completion_time env) \<rparr>))"
    by blast
  let ?new = "map ?f [1..<m] @ fins"
  have l: "fst (getConversion cid (storage (snd (processAudioFile env cid w))))
      = Some (last (job # ?new))"
    using g by (simp add: getConversion_def)
  have j: "path_iff_completed job"
    using created(3,5) by (simp add: path_iff_completed_def)
  have p: "list_all path_iff_completed (map ?f [1..<m])"
    using created(5) by (simp add: list_all_iff path_iff_completed_def)
  have e: "list_all path_iff_completed fins"
    using f created(5) by (auto simp: path_iff_completed_def)
  from j p e have "list_all path_iff_completed (job # ?new)" by simp
  with stored s l show ?thesis by blast
qed

theorem runner_path_iff_completed_witness:
  "post_upload sample_upload ''c'' 3000 sample_store
     = ((200, JsonConversion (fst sample_created)), snd sample_created, Some ''c'')
   \<and> length (job_states ''c'' (snd (processAudioFile sample_env ''c''
        (fresh_world (snd sample_created))))) = 10
   \<and> list_all path_iff_completed (fst sample_created #
        map the (job_states ''c'' (snd (processAudioFile sample_env ''c''
          (fresh_world (snd sample_created))))))
   \<and> list_all path_iff_completed (fst sample_created #
        map the (job_states ''c'' (snd (processAudioFile sample_env_rejected ''c''
          (fresh_world (snd sample_created))))))"
proof -
  have t: "map the (map Some new) = new" for new :: "conversion list"
    by (induction new) simp_all
  from runner_path_iff_completed [OF post_upload_accepts_sample sample_fresh_present,
      of sample_env]
  obtain new where "job_states ''c'' (snd (processAudioFile sample_env ''c''
        (fresh_world (snd sample_created)))) = map Some new"
    and "list_all path_iff_completed (fst sample_created # new)"
    by (auto simp: sample_fresh_states)
  then have 1: "list_all path_iff_completed (fst sample_created #
        map the (job_states ''c'' (snd (processAudioFile sample_env ''c''
          (fresh_world (snd sample_created))))))"
    by (simp add: t)
  from runner_path_iff_completed [OF post_upload_accepts_sample sample_fresh_present,
      of sample_env_rejected]
  obtain new' where "job_states ''c'' (snd (processAudioFile sample_env_rejected ''c''
        (fresh_world (snd sample_created)))) = map Some new'"
    and "list_all path_iff_completed (fst sample_created # new')"
    by (auto simp: sample_fresh_states)
  then have 2: "list_all path_iff_completed (fst sample_created #
        map the (job_states ''c'' (snd (processAudioFile sample_env_rejected ''c''
          (fresh_world (snd sample_created))))))"
    by (simp add: t)
  from post_upload_accepts_sample sample_run_length 1 2 show ?thesis by simp
qed

text \<open>
  C5. For every accepted upload and every run of the runner on the created job, whatever
  fails during the run: progress is 0 at creation, and every transition from one state
  of the job to the next is a \<open>lifecycle_step\<close>, so progress does not decrease except to
  0 on failure, no state after creation is pending, and a completed or failed state has
  no successor.
\<close>

theorem runner_lifecycle:
  assumes "post_upload req uuid now conversions
     = ((200, JsonConversion job), conversions', Some cid)"
    and "fst (getConversion cid (storage w)) = Some job"
  shows "fst (getConversion cid conversions') = Some job \<and> progress job = 0
    \<and> (\<exists>new. job_states cid (snd (processAudioFile env cid w)) = job_states cid w @ map Some new
          \<and> fst (getConversion cid (storage (snd (processAudioFile env cid w))))
              = Some (last (job # new))
          \<and> successively lifecycle_step (job # new))"
proof -
  note created = post_upload_created [OF assms(1)]
  have stored: "fst (getConversion cid conversions') = Some job"
    using created(2) by (simp add: getConversion_def)
  have p0: "progress job = 0" by (rule created(4))
  have st: "status job \<noteq> Completed" "status job \<noteq> Failed"
    using created(3) by simp_all
  have present: "map_get (storage w) cid = Some job"
    using assms(2) by (simp add: getConversion_def)
  let ?f = "\<lambda>n. job \<lparr> status := Processing, progress := progress_at n \<rparr>"
  from run_states [OF present, of env] obtain m fins where
    m: "m \<le> totalSteps"
    and s: "job_states cid (snd (processAudioFile env cid w)) = job_states cid w
        @ map Some (map ?f [1..<m] @ fins)"
    and g: "map_get (storage (snd (processAudioFile env cid w))) cid
         = Some (last (job # map ?f [1..<m] @ fins))"
    and f: "fins = []
        \<or> (\<exists>fin. fins = [fin]
             \<and> (status fin = Failed \<and> progress fin = 0
                  \<and> convertedFilePath fin = convertedFilePath job
                \<or> m = totalSteps
                  \<and> fin = job \<lparr> convertedFilePath := Some (outputPath cid), status := Completed,
                       progress := progress_at totalSteps,
                       completedAt := Some (completion_time env) \<rparr>))"
    by blast
  let ?new = "map ?f [1..<m] @ fins"
  have l: "fst (getConversion cid (storage (snd (processAudioFile env cid w))))
      = Some (last (job # ?new))"
    using g by (simp add: getConversion_def)
  have chain: "successively lifecycle_step (job # map ?f [1..<m] @ [fin])"
    if np: "status fin \<noteq> Pending"
      and pr: "status fin = Failed \<and> progress fin = 0
         \<or> progress job \<le> progress fin \<and> (\<forall>n\<in>set [1..<m]. progress_at n \<le> progress fin)"
    for fin
  proof (rule lifecycle_chain)
    show "status job \<noteq> Completed" "status job \<noteq> Failed" by (rule st)+
    show "sorted [1..<m]" by simp
    show "\<forall>n\<in>set [1..<m]. progress job \<le> progress_at n" using p0 by (simp add: progress_at_eq)
    show "status fin \<noteq> Pending" by (rule np)
    show "status fin = Failed \<and> progress fin = 0
         \<or> progress job \<le> progress fin \<and> (\<forall>n\<in>set [1..<m]. progress_at n \<le> progress fin)"
      by (rule pr)
  qed
  have "successively lifecycle_step (job # ?new)"
  proof (cases "fins = []")
    case True
    have "successively lifecycle_step
        (job # map ?f [1..<m] @ [job \<lparr> status := Failed, progress := 0 \<rparr>])"
      by (rule chain) simp_all
    then have "successively lifecycle_step (job # map ?f [1..<m])"
      using successively_butlast [of lifecycle_step "job # map ?f [1..<m]"] by simp
    with True show ?thesis by simp
  next
    case False
    with f obtain fin where fin: "fins = [fin]"
      and c: "status fin = Failed \<and> progress fin = 0
                  \<and> convertedFilePath fin = convertedFilePath job
                \<or> m = totalSteps
                  \<and> fin = job \<lparr> convertedFilePath := Some (outputPath cid), status := Completed,
                       progress := progress_at totalSteps,
                       completedAt := Some (completion_time env) \<rparr>"
      by blast
    have np: "status fin \<noteq> Pending" using c by auto
    have pr: "status fin = Failed \<and> progress fin = 0
         \<or> progress job \<le> progress fin \<and> (\<forall>n\<in>set [1..<m]. progress_at n \<le> progress fin)"
      using c p0 m by (auto simp: progress_at_eq)
    from chain [OF np pr] fin show ?thesis by simp
  qed
  with stored p0 s l show ?thesis by blast
qed

theorem runner_lifecycle_witness:
  "post_upload sample_upload ''c'' 3000 sample_store
     = ((200, JsonConversion (fst sample_created)), snd sample_created, Some ''c'')
   \<and> progress (fst sample_created) = 0
   \<and> length (job_states ''c'' (snd (processAudioFile sample_env ''c''
        (fresh_world (snd sample_created))))) = 10
   \<and> successively lifecycle_step (fst sample_created #
        map the (job_states ''c'' (snd (processAudioFile sample_env ''c''
          (fresh_world (snd sample_created))))))
   \<and> successively lifecycle_step (fst sample_created #
        map the (job_states ''c'' (snd (processAudioFile sample_env_rejected ''c''
          (fresh_world (snd sample_created))))))"
proof -
  have t: "map the (map Some new) = new" for new :: "conversion list"
    by (induction new) simp_all
  from runner_lifecycle [OF post_upload_accepts_sample sample_fresh_present, of sample_env]
  obtain new where "job_states ''c'' (snd (processAudioFile sample_env ''c''
        (fresh_world (snd sample_created)))) = map Some new"
    and "successively lifecycle_step (fst sample_created # new)"
    and 0: "progress (fst sample_created) = 0"
    by (auto simp: sample_fresh_states)
  then have 1: "successively lifecycle_step (fst sample_created #
        map the (job_states ''c'' (snd (processAudioFile sample_env ''c''
          (fresh_world (snd sample_created))))))"
    by (simp add: t)
  from runner_lifecycle [OF post_upload_accepts_sample sample_fresh_present,
      of sample_env_rejected]
  obtain new' where "job_states ''c'' (snd (processAudioFile sample_env_rejected ''c''
        (fresh_world (snd sample_created)))) = map Some new'"
    and "successively lifecycle_step (fst sample_created # new')"
    by (auto simp: sample_fresh_states)
  then have 2: "successively lifecycle_step (fst sample_created #
        map the (job_states ''c'' (snd (processAudioFile sample_env_rejected ''c''
          (fresh_world (snd sample_created))))))"
    by (simp add: t)
  from post_upload_accepts_sample 0 sample_run_length 1 2 show ?thesis by simp
qed

section \<open>getAllConversions\<close>

text \<open>
  C8. \<open>getAllConversions\<close> returns all records of the store: the records of the entries,
  with their multiplicities, which for a store with distinct keys are exactly the
  records \<open>getConversion\<close> finds. They are ordered by \<open>createdAt\<close> descending, and
  records with equal \<open>createdAt\<close> keep their insertion order. The store is left as it
  was, and a second call on the store it leaves returns the same list.
\<close>

theorem getAllConversions_newest_first:
  "mset (fst (getAllConversions conversions)) = mset (map snd conversions)
   \<and> length (fst (getAllConversions conversions)) = length conversions
   \<and> (distinct (map fst conversions) \<longrightarrow>
        set (fst (getAllConversions conversions))
          = {c. \<exists>k. fst (getConversion k conversions) = Some c})
   \<and> sorted_wrt (\<lambda>a b. createdAt b \<le> createdAt a) (fst (getAllConversions conversions))
   \<and> (\<forall>t. filter (\<lambda>c. createdAt c = t) (fst (getAllConversions conversions))
          = filter (\<lambda>c. createdAt c = t) (map snd conversions))
   \<and> snd (getAllConversions conversions) = conversions
   \<and> getAllConversions (snd (getAllConversions conversions)) = getAllConversions conversions"
proof -
  have m: "mset (fst (getAllConversions conversions)) = mset (map snd conversions)"
    by (simp add: getAllConversions_def mset_array_sort map_values_def)
  from m have "size (mset (fst (getAllConversions conversions)))
      = size (mset (map snd conversions))"
    by (simp only:)
  then have n: "length (fst (getAllConversions conversions)) = length conversions"
    by simp
  have r: "set (fst (getAllConversions conversions))
          = {c. \<exists>k. fst (getConversion k conversions) = Some c}"
    if d: "distinct (map fst conversions)"
  proof -
    from m have "set_mset (mset (fst (getAllConversions conversions)))
        = set_mset (mset (map snd conversions))"
      by (simp only:)
    then have "set (fst (getAllConversions conversions)) = snd ` set conversions"
      by simp
    also have "\<dots> = ran (map_of conversions)"
      using ran_distinct [OF d] by simp
    also have "\<dots> = {c. \<exists>k. fst (getConversion k conversions) = Some c}"
      by (simp add: ran_def getConversion_def map_get_def)
    finally show ?thesis .
  qed
  have o: "sorted_wrt (\<lambda>a b. createdAt b \<le> createdAt a) (fst (getAllConversions conversions))"
    by (simp add: getAllConversions_def sorted_array_sort)
  have t: "\<forall>t. filter (\<lambda>c. createdAt c = t) (fst (getAllConversions conversions))
          = filter (\<lambda>c. createdAt c = t) (map snd conversions)"
    by (simp add: getAllConversions_def filter_array_sort map_values_def)
  have u: "snd (getAllConversions conversions) = conversions"
    by (simp add: getAllConversions_def)
  from m n r o t u show ?thesis by simp
qed

theorem getAllConversions_newest_first_witness:
  "distinct (map fst sample_listing_store)
   \<and> fst (getAllConversions sample_listing_store)
       = [sample_job \<lparr> conv_id := ''b'', createdAt := 2000 \<rparr>, sample_job,
          sample_job \<lparr> conv_id := ''c'' \<rparr>]
   \<and> set (fst (getAllConversions sample_listing_store))
       = {c. \<exists>k. fst (getConversion k sample_listing_store) = Some c}
   \<and> snd (getAllConversions sample_listing_store) = sample_listing_store"
proof -
  have d: "distinct (map fst sample_listing_store)"
    by (simp add: sample_listing_store_def sample_store_def)
  have v: "fst (getAllConversions sample_listing_store)
       = [sample_job \<lparr> conv_id := ''b'', createdAt := 2000 \<rparr>, sample_job,
          sample_job \<lparr> conv_id := ''c'' \<rparr>]"
    by (simp add: getAllConversions_def array_sort_def map_values_def sample_listing_store_def
        sample_store_def sample_job_def)
  from getAllConversions_newest_first [of sample_listing_store] d v show ?thesis
    by simp
qed

section \<open>Upload validation\<close>

text \<open>
  C9. An upload whose file has a mime type outside audio/mpeg, audio/wav, audio/mp4 and
  audio/m4a, or whose size exceeds 50MB, is answered with status 400; the store is
  unchanged (no job is created) and no runner is started.
\<close>

theorem post_upload_rejected:
  assumes "req_file req = Some file"
    and "mimetype file \<notin> {''audio/mpeg'', ''audio/wav'', ''audio/mp4'', ''audio/m4a''}
         \<or> 50 * 1024 * 1024 < size_b file"
  shows "\<exists>message. post_upload req uuid now conversions
           = ((400, JsonMessage message), conversions, None)"
proof -
  from assms(2) have "\<not> fileFilter file \<or> fileSize_limit < size_b file"
    by (simp add: fileFilter_def allowedTypes_def fileSize_limit_def)
  then have "\<exists>err. upload_single (req_file req) = Inl err"
    using assms(1) by (cases "fileFilter file") (simp_all add: upload_single_def)
  then obtain err where "upload_single (req_file req) = Inl err" ..
  then show ?thesis
    by (simp add: post_upload_def reject_upload_def)
qed

theorem post_upload_rejected_witness:
  "fst (snd (post_upload sample_text_upload ''c'' 3000 sample_store)) = sample_store
   \<and> fst (fst (post_upload sample_text_upload ''c'' 3000 sample_store)) = 400
   \<and> fst (snd (post_upload sample_big_upload ''c'' 3000 sample_store)) = sample_store
   \<and> fst (fst (post_upload sample_big_upload ''c'' 3000 sample_store)) = 400"
proof -
  have t: "req_file sample_text_upload = Some \<lparr> originalname = ''notes.mp3'',
       path = ''uploads/f2'', size_b = 12, mimetype = ''text/plain'' \<rparr>"
    by (simp add: sample_text_upload_def)
  have b: "req_file sample_big_upload = Some \<lparr> originalname = ''long.wav'',
       path = ''uploads/f3'', size_b = 52428801, mimetype = ''audio/wav'' \<rparr>"
    by (simp add: sample_big_upload_def)
  from post_upload_rejected [OF t, of "''c''" 3000 sample_store]
       post_upload_rejected [OF b, of "''c''" 3000 sample_store]
  show ?thesis by auto
qed

end
